theory Spec2Isabelle
  imports Main "HOL-Library.Word"
begin

section \<open>Low-level references\<close>

text \<open>
  The file \<^verbatim>\<open>datamodel/high/base/schema.go\<close> builds a high-level \<^verbatim>\<open>Schema\<close> from a
  low-level one. The low-level reference types live in package \<^verbatim>\<open>datamodel/low\<close>; the
  struct literals and field accesses of \<^verbatim>\<open>schema.go\<close> show their fields: a
  \<^verbatim>\<open>NodeReference\<close> has \<^verbatim>\<open>Value\<close>, \<^verbatim>\<open>ValueNode\<close> and \<^verbatim>\<open>KeyNode\<close>, a
  \<^verbatim>\<open>ValueReference\<close> has \<^verbatim>\<open>Value\<close> and \<^verbatim>\<open>ValueNode\<close>, a \<^verbatim>\<open>KeyReference\<close> has
  \<^verbatim>\<open>Value\<close> and \<^verbatim>\<open>KeyNode\<close>. A syntax node pointer is modelled by its identity
  (\<open>None\<close> is the nil pointer). Go's \<^verbatim>\<open>int64\<close> is a 64-bit word.
\<close>

type_synonym node = nat
type_synonym int64 = "64 word"

record 'a NodeReference =
  Value :: 'a
  ValueNode :: "node option"
  KeyNode :: "node option"

record 'a ValueReference =
  VValue :: 'a
  VValueNode :: "node option"

record 'a KeyReference =
  KValue :: 'a
  KKeyNode :: "node option"

text \<open>
  Modelled from the spec: \<^verbatim>\<open>IsEmpty\<close> of the low-level reference types is declared outside
  \<^verbatim>\<open>schema.go\<close>. The spec gives every low-level node a presence flag
  \<^verbatim>\<open>is_present()\<close>, which tells an absent field from one that is present with a zero
  value, and an optional reference to the syntax node it came from. A reference is taken
  to be empty exactly when it carries no syntax node.
\<close>

definition IsEmpty :: "'a NodeReference \<Rightarrow> bool" where
  "IsEmpty r = (KeyNode r = None \<and> ValueNode r = None)"



text \<open>
  \<^verbatim>\<open>SchemaDynamicValue[A, B]\<close> holds the two dialect forms of a field. Its declaration is
  outside \<^verbatim>\<open>schema.go\<close>, which reads the fields \<^verbatim>\<open>A\<close> and \<^verbatim>\<open>B\<close> and calls
  \<^verbatim>\<open>IsA()\<close> and \<^verbatim>\<open>IsB()\<close>. The answers of the two calls are taken as components of
  the value, with no constraint between them.
\<close>

record ('a, 'b) SchemaDynamicValue =
  valA :: 'a
  valB :: 'b
  IsA :: bool
  IsB :: bool

section \<open>Slices\<close>

text \<open>
  A Go slice is \<open>None\<close> when nil and \<open>Some xs\<close> otherwise; \<^verbatim>\<open>append\<close> to a nil slice
  allocates, \<^verbatim>\<open>len\<close> of a nil slice is 0.
\<close>

type_synonym 'a slice = "'a list option"

definition elems :: "'a slice \<Rightarrow> 'a list" where
  "elems s = (case s of None \<Rightarrow> [] | Some xs \<Rightarrow> xs)"

definition append_slice :: "'a slice \<Rightarrow> 'a \<Rightarrow> 'a slice" where
  "append_slice s x = Some (elems s @ [x])"

definition len :: "'a slice \<Rightarrow> nat" where
  "len s = length (elems s)"

section \<open>The low-level schema\<close>

text \<open>
  Modelled from the spec: the low-level \<^verbatim>\<open>base.Schema\<close> struct is declared outside
  \<^verbatim>\<open>schema.go\<close>. It has one reference per field that \<^verbatim>\<open>NewSchema\<close> reads, with the
  type the read needs, and \<^verbatim>\<open>UniqueItems\<close>, which the spec lists among the scalar
  constraints and the high-level \<^verbatim>\<open>Schema\<close> declares. The type \<open>'sp\<close> stands for
  \<^verbatim>\<open>*base.SchemaProxy\<close>, the pointer to a nested low-level schema, which the builder
  copies and never dereferences. The properties map is keyed by \<^verbatim>\<open>KeyReference[string]\<close>;
  its entries are listed in some order, with pairwise distinct keys.
  The fields \<^verbatim>\<open>AdditionalProperties\<close>, \<^verbatim>\<open>Default\<close>, \<^verbatim>\<open>Example\<close>, \<^verbatim>\<open>Extensions\<close>,
  \<^verbatim>\<open>Discriminator\<close>, \<^verbatim>\<open>XML\<close> and \<^verbatim>\<open>ExternalDocs\<close> are of type \<^verbatim>\<open>any\<close> or are built by
  functions of other files; they are left out on both sides, as is the back-reference
  \<^verbatim>\<open>low\<close>.
\<close>

record 'sp lowSchema =
  low_Title :: "string NodeReference"
  low_MultipleOf :: "int64 NodeReference"
  low_Maximum :: "int64 NodeReference"
  low_ExclusiveMaximum :: "(bool, int64) SchemaDynamicValue NodeReference"
  low_Minimum :: "int64 NodeReference"
  low_ExclusiveMinimum :: "(bool, int64) SchemaDynamicValue NodeReference"
  low_MaxLength :: "int64 NodeReference"
  low_MinLength :: "int64 NodeReference"
  low_Pattern :: "string NodeReference"
  low_Format :: "string NodeReference"
  low_MaxItems :: "int64 NodeReference"
  low_MinItems :: "int64 NodeReference"
  low_UniqueItems :: "int64 NodeReference"
  low_MaxProperties :: "int64 NodeReference"
  low_MinProperties :: "int64 NodeReference"
  low_Required :: "string ValueReference list NodeReference"
  low_Enum :: "string ValueReference list NodeReference"
  low_Type :: "(string, string ValueReference list) SchemaDynamicValue NodeReference"
  low_AllOf :: "'sp ValueReference list NodeReference"
  low_OneOf :: "'sp ValueReference list NodeReference"
  low_AnyOf :: "'sp ValueReference list NodeReference"
  low_Not :: "'sp ValueReference list NodeReference"
  low_Items :: "'sp ValueReference list NodeReference"
  low_Properties :: "(string KeyReference \<times> 'sp ValueReference) list NodeReference"
  low_Description :: "string NodeReference"
  low_Nullable :: "bool NodeReference"
  low_ReadOnly :: "bool NodeReference"
  low_WriteOnly :: "bool NodeReference"
  low_Deprecated :: "bool NodeReference"

section \<open>The high-level schema\<close>

text \<open>
  A high-level \<^verbatim>\<open>SchemaProxy\<close> is created with its \<^verbatim>\<open>schema\<close> field only: a fresh
  \<^verbatim>\<open>NodeReference\<close> to the nested low-level schema.
\<close>

record 'sp SchemaProxy =
  schema :: "'sp NodeReference"

text \<open>
  The struct \<^verbatim>\<open>Schema\<close>. A nil map is \<open>None\<close>; \<^verbatim>\<open>Not\<close> is spelt \<open>NotOf\<close>.
\<close>

record 'sp Schema =
  SchemaTypeRef :: string
  Title :: string
  MultipleOf :: int64
  Maximum :: int64
  ExclusiveMaximumBool :: bool
  ExclusiveMaximum :: int64
  Minimum :: int64
  ExclusiveMinimum :: int64
  ExclusiveMinimumBool :: bool
  MaxLength :: int64
  MinLength :: int64
  Pattern :: string
  Format :: string
  MaxItems :: int64
  MinItems :: int64
  UniqueItems :: int64
  MaxProperties :: int64
  MinProperties :: int64
  Required :: "string slice"
  Enum :: "string slice"
  Type :: "string slice"
  AllOf :: "'sp SchemaProxy slice"
  OneOf :: "'sp SchemaProxy slice"
  AnyOf :: "'sp SchemaProxy slice"
  NotOf :: "'sp SchemaProxy slice"
  Items :: "'sp SchemaProxy slice"
  Properties :: "(string \<rightharpoonup> 'sp SchemaProxy) option"
  Description :: string
  Nullable :: bool
  ReadOnly :: bool
  WriteOnly :: bool
  Deprecated :: bool

text \<open>\<^verbatim>\<open>new(Schema)\<close>: every field at the zero value of its type.\<close>

definition new_Schema :: "'sp Schema" where
  "new_Schema = \<lparr> SchemaTypeRef = [], Title = [], MultipleOf = 0, Maximum = 0,
     ExclusiveMaximumBool = False, ExclusiveMaximum = 0, Minimum = 0, ExclusiveMinimum = 0,
     ExclusiveMinimumBool = False, MaxLength = 0, MinLength = 0, Pattern = [], Format = [],
     MaxItems = 0, MinItems = 0, UniqueItems = 0, MaxProperties = 0, MinProperties = 0,
     Required = None, Enum = None, Type = None, AllOf = None, OneOf = None, AnyOf = None,
     NotOf = None, Items = None, Properties = None, Description = [], Nullable = False,
     ReadOnly = False, WriteOnly = False, Deprecated = False \<rparr>"

text \<open>The loops that copy a list of string references into a slice that starts nil.\<close>

definition copy_values :: "string slice \<Rightarrow> string ValueReference list \<Rightarrow> string slice" where
  "copy_values s vs = foldl (\<lambda>acc v. append_slice acc (VValue v)) s vs"

text \<open>
  The sequential first part of \<^verbatim>\<open>NewSchema\<close>, up to the assignment of \<^verbatim>\<open>s.Enum\<close>, one
  update per assignment of the source, in the source's order.
\<close>

definition NewSchema_fields :: "'sp lowSchema \<Rightarrow> 'sp Schema" where
  "NewSchema_fields lo =
    (let s = new_Schema;
         s = s\<lparr>Title := Value (low_Title lo)\<rparr>;
         s = s\<lparr>MultipleOf := Value (low_MultipleOf lo)\<rparr>;
         s = s\<lparr>Maximum := Value (low_Maximum lo)\<rparr>;
         s = s\<lparr>Minimum := Value (low_Minimum lo)\<rparr>;
         s = (if \<not> IsEmpty (low_ExclusiveMaximum lo) \<and> IsA (Value (low_ExclusiveMaximum lo))
              then s\<lparr>ExclusiveMaximumBool := valA (Value (low_ExclusiveMaximum lo))\<rparr> else s);
         s = (if \<not> IsEmpty (low_ExclusiveMaximum lo) \<and> IsB (Value (low_ExclusiveMaximum lo))
              then s\<lparr>ExclusiveMaximum := valB (Value (low_ExclusiveMaximum lo))\<rparr> else s);
         s = (if \<not> IsEmpty (low_ExclusiveMinimum lo) \<and> IsA (Value (low_ExclusiveMinimum lo))
              then s\<lparr>ExclusiveMinimumBool := valA (Value (low_ExclusiveMinimum lo))\<rparr> else s);
         s = (if \<not> IsEmpty (low_ExclusiveMinimum lo) \<and> IsB (Value (low_ExclusiveMinimum lo))
              then s\<lparr>ExclusiveMinimum := valB (Value (low_ExclusiveMinimum lo))\<rparr> else s);
         s = s\<lparr>MaxLength := Value (low_MaxLength lo)\<rparr>;
         s = s\<lparr>MinLength := Value (low_MinLength lo)\<rparr>;
         s = s\<lparr>Pattern := Value (low_Pattern lo)\<rparr>;
         s = s\<lparr>Format := Value (low_Format lo)\<rparr>;
         s = s\<lparr>MaxItems := Value (low_MaxItems lo)\<rparr>;
         s = s\<lparr>MinItems := Value (low_MinItems lo)\<rparr>;
         s = s\<lparr>MaxProperties := Value (low_MaxProperties lo)\<rparr>;
         s = s\<lparr>MinProperties := Value (low_MinProperties lo)\<rparr>;
         s = (if \<not> IsEmpty (low_Type lo) \<and> IsA (Value (low_Type lo))
              then s\<lparr>Type := Some [valA (Value (low_Type lo))]\<rparr> else s);
         s = (if \<not> IsEmpty (low_Type lo) \<and> IsB (Value (low_Type lo))
              then s\<lparr>Type := copy_values (Type s) (valB (Value (low_Type lo)))\<rparr> else s);
         s = s\<lparr>Description := Value (low_Description lo)\<rparr>;
         s = s\<lparr>Nullable := Value (low_Nullable lo)\<rparr>;
         s = s\<lparr>ReadOnly := Value (low_ReadOnly lo)\<rparr>;
         s = s\<lparr>WriteOnly := Value (low_WriteOnly lo)\<rparr>;
         s = s\<lparr>Deprecated := Value (low_Deprecated lo)\<rparr>;
         s = s\<lparr>Required := copy_values None (Value (low_Required lo))\<rparr>;
         s = s\<lparr>Enum := copy_values None (Value (low_Enum lo))\<rparr>
     in s)"

section \<open>The concurrent part of \<^verbatim>\<open>NewSchema\<close>\<close>

text \<open>
  After the scalar fields, \<^verbatim>\<open>NewSchema\<close> starts one goroutine \<^verbatim>\<open>buildProps\<close> per
  entry of the properties map and one goroutine \<^verbatim>\<open>buildOutSchema\<close> per composition
  array that is not empty (\<^verbatim>\<open>IsEmpty\<close>); each \<^verbatim>\<open>buildOutSchema\<close> starts one goroutine
  \<^verbatim>\<open>buildSchemaChild\<close> per entry of its array. All channels are unbuffered, so a send and
  its receive are one joint step of the two goroutines. The model is a transition system:
  a state holds the shared variables and the control point of every goroutine, an
  \<open>action\<close> names the goroutine that moves, and a run is a list of actions (a schedule).
  All goroutines exist from the initial state on: until the \<^verbatim>\<open>if\<close> before the await loop
  the main goroutine only starts goroutines and reads no shared variable.
\<close>

datatype poly = KAllOf | KAnyOf | KOneOf | KNot | KItems

definition polys :: "poly list" where
  "polys = [KAllOf, KAnyOf, KOneOf, KNot, KItems]"

fun poly_ref :: "'sp lowSchema \<Rightarrow> poly \<Rightarrow> 'sp ValueReference list NodeReference" where
  "poly_ref lo KAllOf = low_AllOf lo"
| "poly_ref lo KAnyOf = low_AnyOf lo"
| "poly_ref lo KOneOf = low_OneOf lo"
| "poly_ref lo KNot = low_Not lo"
| "poly_ref lo KItems = low_Items lo"

text \<open>\<^verbatim>\<open>totalSchemas := len(schemas)\<close> in \<^verbatim>\<open>buildOutSchema\<close>.\<close>

definition totalSchemas :: "'sp lowSchema \<Rightarrow> poly \<Rightarrow> nat" where
  "totalSchemas lo a = length (Value (poly_ref lo a))"

text \<open>\<^verbatim>\<open>totalProps\<close> and \<^verbatim>\<open>totalChildren\<close> of \<^verbatim>\<open>NewSchema\<close>, the sum in the source's order.\<close>

definition totalProps :: "'sp lowSchema \<Rightarrow> nat" where
  "totalProps lo = length (Value (low_Properties lo))"

definition totalChildren :: "'sp lowSchema \<Rightarrow> nat" where
  "totalChildren lo = length (Value (low_AllOf lo)) + length (Value (low_OneOf lo))
     + length (Value (low_AnyOf lo)) + length (Value (low_Items lo)) + length (Value (low_Not lo))"

text \<open>The proxy that \<^verbatim>\<open>buildSchemaChild\<close> creates: no key node.\<close>

definition childProxy :: "'sp ValueReference \<Rightarrow> 'sp SchemaProxy" where
  "childProxy v = \<lparr> schema = \<lparr> Value = VValue v, ValueNode = VValueNode v, KeyNode = None \<rparr> \<rparr>"

text \<open>The proxy that \<^verbatim>\<open>buildProps\<close> creates.\<close>

definition propProxy :: "string KeyReference \<Rightarrow> 'sp ValueReference \<Rightarrow> 'sp SchemaProxy" where
  "propProxy k v = \<lparr> schema = \<lparr> Value = VValue v, ValueNode = VValueNode v, KeyNode = KKeyNode k \<rparr> \<rparr>"

text \<open>
  Control points of a \<^verbatim>\<open>buildProps\<close> goroutine: before \<^verbatim>\<open>plock.Lock()\<close>; holding the
  lock, before the map write; after the map write, before \<^verbatim>\<open>s.Properties = props\<close>;
  after that assignment, blocked in \<^verbatim>\<open>c <- true\<close>; after the send, before the deferred
  \<^verbatim>\<open>plock.Unlock()\<close>; finished.
\<close>

datatype ppc = PStart | PLocked | PWritten | PAssigned | PSent | PDone

text \<open>
  Control points of a \<^verbatim>\<open>buildOutSchema\<close> goroutine: never started; running (in the
  receive loop while \<^verbatim>\<open>j < totalSchemas\<close>, blocked in \<^verbatim>\<open>doneChan <- true\<close> after it);
  finished.
\<close>

datatype bpc = BNone | BRun | BDone

text \<open>
  Control points of the main goroutine: at \<^verbatim>\<open>if totalProps+totalChildren > 0\<close>; in the
  \<^verbatim>\<open>select\<close> of the await loop; before each of the five final assignments, in the
  source's order; returned.
\<close>

datatype mpc = MCheck | MAwait | MOneOf | MAnyOf | MAllOf | MItems | MNot | MReturned

record 'sp state =
  sch :: "'sp Schema"
  props :: "string \<rightharpoonup> 'sp SchemaProxy"
  plock :: bool
  ppcs :: "ppc list"
  polyvar :: "poly \<Rightarrow> 'sp SchemaProxy slice"
  bpcs :: "poly \<Rightarrow> bpc"
  bj :: "poly \<Rightarrow> nat"
  bsent :: "poly \<Rightarrow> bool list"
  mpc :: mpc
  completeChildren :: nat
  completedProps :: nat
  errChan :: "string list"

text \<open>
  \<open>sch\<close> is the object \<^verbatim>\<open>s\<close>; \<open>props\<close> the map made by \<^verbatim>\<open>make\<close>; \<open>polyvar\<close> the five
  local slices \<^verbatim>\<open>allOf\<close>, \<^verbatim>\<open>anyOf\<close>, \<^verbatim>\<open>oneOf\<close>, \<^verbatim>\<open>not\<close>, \<^verbatim>\<open>items\<close> that the
  \<^verbatim>\<open>buildOutSchema\<close> goroutines append to through a pointer; \<open>bj\<close> the counter \<^verbatim>\<open>j\<close> of
  each \<^verbatim>\<open>buildOutSchema\<close>; \<open>bsent\<close> tells, for each array, which \<^verbatim>\<open>buildSchemaChild\<close>
  goroutines have completed their send on \<^verbatim>\<open>bChan\<close>; \<open>errChan\<close> lists the values sent
  on the error channel.
\<close>

definition NewSchema_init :: "'sp lowSchema \<Rightarrow> 'sp state" where
  "NewSchema_init lo = \<lparr> sch = NewSchema_fields lo, props = Map.empty, plock = False,
     ppcs = replicate (totalProps lo) PStart,
     polyvar = (\<lambda>a. None),
     bpcs = (\<lambda>a. if \<not> IsEmpty (poly_ref lo a) then BRun else BNone),
     bj = (\<lambda>a. 0),
     bsent = (\<lambda>a. replicate (totalSchemas lo a) False),
     mpc = MCheck, completeChildren = 0, completedProps = 0, errChan = [] \<rparr>"

text \<open>
  The test after each receive of the await loop:
  \<^verbatim>\<open>if totalProps == completedProps && totalChildren == completeChildren { break allDone }\<close>.
\<close>

definition allDone :: "'sp lowSchema \<Rightarrow> 'sp state \<Rightarrow> 'sp state" where
  "allDone lo st = (if totalProps lo = completedProps st \<and> totalChildren lo = completeChildren st
                    then st\<lparr>mpc := MOneOf\<rparr> else st)"

text \<open>
  The actions. \<open>MainStep\<close>: the main goroutine runs its next statement that is not a
  receive. \<open>RecvPoly a\<close>: \<^verbatim>\<open>buildOutSchema\<close> of array \<open>a\<close> sends on \<^verbatim>\<open>doneChan\<close> and the
  main goroutine receives. \<open>RecvProps i\<close>: \<^verbatim>\<open>buildProps\<close> of entry \<open>i\<close> sends on
  \<^verbatim>\<open>propsChan\<close> and the main goroutine receives. \<open>PLock i\<close>, \<open>PWrite i\<close>, \<open>PAssign i\<close>,
  \<open>PUnlock i\<close>: \<^verbatim>\<open>buildProps\<close> of entry \<open>i\<close> takes the lock, writes the map, assigns
  \<^verbatim>\<open>s.Properties\<close>, releases the lock. \<open>BRecv a i\<close>: child \<open>i\<close> of array \<open>a\<close> sends its
  proxy on \<^verbatim>\<open>bChan\<close>, \<^verbatim>\<open>buildOutSchema\<close> receives it, increments \<^verbatim>\<open>j\<close> and appends.
\<close>

datatype action = MainStep | RecvPoly poly | RecvProps nat
  | PLock nat | PWrite nat | PAssign nat | PUnlock nat | BRecv poly nat

text \<open>
  One step; \<open>None\<close> when the goroutine cannot move (it is blocked, or not at that
  statement). A Go map is a reference: once \<^verbatim>\<open>s.Properties = props\<close> has run, a later
  write to \<^verbatim>\<open>props\<close> is seen through \<^verbatim>\<open>s.Properties\<close>.
\<close>

fun step :: "'sp lowSchema \<Rightarrow> action \<Rightarrow> 'sp state \<Rightarrow> 'sp state option" where
  "step lo MainStep st =
     (case mpc st of
        MCheck \<Rightarrow> Some (st\<lparr>mpc := (if totalProps lo + totalChildren lo > 0 then MAwait else MOneOf)\<rparr>)
      | MAwait \<Rightarrow> None
      | MOneOf \<Rightarrow> Some (st\<lparr>sch := (sch st)\<lparr>OneOf := polyvar st KOneOf\<rparr>, mpc := MAnyOf\<rparr>)
      | MAnyOf \<Rightarrow> Some (st\<lparr>sch := (sch st)\<lparr>AnyOf := polyvar st KAnyOf\<rparr>, mpc := MAllOf\<rparr>)
      | MAllOf \<Rightarrow> Some (st\<lparr>sch := (sch st)\<lparr>AllOf := polyvar st KAllOf\<rparr>, mpc := MItems\<rparr>)
      | MItems \<Rightarrow> Some (st\<lparr>sch := (sch st)\<lparr>Items := polyvar st KItems\<rparr>, mpc := MNot\<rparr>)
      | MNot \<Rightarrow> Some (st\<lparr>sch := (sch st)\<lparr>NotOf := polyvar st KNot\<rparr>, mpc := MReturned\<rparr>)
      | MReturned \<Rightarrow> None)"
| "step lo (RecvPoly a) st =
     (if mpc st = MAwait \<and> bpcs st a = BRun \<and> \<not> bj st a < totalSchemas lo a
      then Some (allDone lo (st\<lparr>completeChildren := completeChildren st + 1,
                                bpcs := (bpcs st)(a := BDone)\<rparr>))
      else None)"
| "step lo (RecvProps i) st =
     (if mpc st = MAwait \<and> i < length (ppcs st) \<and> ppcs st ! i = PAssigned
      then Some (allDone lo (st\<lparr>completedProps := completedProps st + 1,
                                ppcs := (ppcs st)[i := PSent]\<rparr>))
      else None)"
| "step lo (PLock i) st =
     (if i < length (ppcs st) \<and> ppcs st ! i = PStart \<and> \<not> plock st
      then Some (st\<lparr>plock := True, ppcs := (ppcs st)[i := PLocked]\<rparr>)
      else None)"
| "step lo (PWrite i) st =
     (if i < length (ppcs st) \<and> i < totalProps lo \<and> ppcs st ! i = PLocked
      then (let (k, v) = Value (low_Properties lo) ! i;
                m = (props st)(KValue k \<mapsto> propProxy k v)
            in Some (st\<lparr>props := m,
                        sch := (sch st)\<lparr>Properties := map_option (\<lambda>_. m) (Properties (sch st))\<rparr>,
                        ppcs := (ppcs st)[i := PWritten]\<rparr>))
      else None)"
| "step lo (PAssign i) st =
     (if i < length (ppcs st) \<and> ppcs st ! i = PWritten
      then Some (st\<lparr>sch := (sch st)\<lparr>Properties := Some (props st)\<rparr>,
                    ppcs := (ppcs st)[i := PAssigned]\<rparr>)
      else None)"
| "step lo (PUnlock i) st =
     (if i < length (ppcs st) \<and> ppcs st ! i = PSent
      then Some (st\<lparr>plock := False, ppcs := (ppcs st)[i := PDone]\<rparr>)
      else None)"
| "step lo (BRecv a i) st =
     (if bpcs st a = BRun \<and> bj st a < totalSchemas lo a \<and> i < totalSchemas lo a
         \<and> i < length (bsent st a) \<and> \<not> bsent st a ! i
      then Some (st\<lparr>bj := (bj st)(a := bj st a + 1),
                    polyvar := (polyvar st)(a := append_slice (polyvar st a)
                                  (childProxy (Value (poly_ref lo a) ! i))),
                    bsent := (bsent st)(a := (bsent st a)[i := True])\<rparr>)
      else None)"

text \<open>A run under a schedule; \<open>None\<close> when some action of the schedule cannot move.\<close>

fun exec :: "'sp lowSchema \<Rightarrow> action list \<Rightarrow> 'sp state \<Rightarrow> 'sp state option" where
  "exec lo [] st = Some st"
| "exec lo (a # as) st = (case step lo a st of None \<Rightarrow> None | Some st' \<Rightarrow> exec lo as st')"

text \<open>
  \<^verbatim>\<open>NewSchema\<close> under a schedule: the schema it returns, if the main goroutine has
  returned when the schedule ends.
\<close>

definition NewSchema :: "'sp lowSchema \<Rightarrow> action list \<Rightarrow> 'sp Schema option" where
  "NewSchema lo as =
     (case exec lo as (NewSchema_init lo) of
        None \<Rightarrow> None
      | Some st \<Rightarrow> if mpc st = MReturned then Some (sch st) else None)"

section \<open>Example inputs\<close>

definition absent :: "'a \<Rightarrow> 'a NodeReference" where
  "absent z = \<lparr> Value = z, ValueNode = None, KeyNode = None \<rparr>"

definition present :: "node \<Rightarrow> 'a \<Rightarrow> 'a NodeReference" where
  "present n v = \<lparr> Value = v, ValueNode = Some (Suc n), KeyNode = Some n \<rparr>"

definition zero_dyn :: "'a \<Rightarrow> 'b \<Rightarrow> ('a, 'b) SchemaDynamicValue" where
  "zero_dyn a b = \<lparr> valA = a, valB = b, IsA = False, IsB = False \<rparr>"

text \<open>The low-level schema of an empty document node: every field absent, with its zero value.\<close>

definition empty_low :: "'sp lowSchema" where
  "empty_low = \<lparr> low_Title = absent [], low_MultipleOf = absent 0, low_Maximum = absent 0,
     low_ExclusiveMaximum = absent (zero_dyn False 0), low_Minimum = absent 0,
     low_ExclusiveMinimum = absent (zero_dyn False 0), low_MaxLength = absent 0,
     low_MinLength = absent 0, low_Pattern = absent [], low_Format = absent [],
     low_MaxItems = absent 0, low_MinItems = absent 0, low_UniqueItems = absent 0,
     low_MaxProperties = absent 0, low_MinProperties = absent 0, low_Required = absent [],
     low_Enum = absent [], low_Type = absent (zero_dyn [] []), low_AllOf = absent [],
     low_OneOf = absent [], low_AnyOf = absent [], low_Not = absent [], low_Items = absent [],
     low_Properties = absent [], low_Description = absent [], low_Nullable = absent False,
     low_ReadOnly = absent False, low_WriteOnly = absent False, low_Deprecated = absent False \<rparr>"

text \<open>A reference to a nested schema, the nested schema being the pointer \<open>p\<close>.\<close>

definition vref :: "node \<Rightarrow> 'sp \<Rightarrow> 'sp ValueReference" where
  "vref n p = \<lparr> VValue = p, VValueNode = Some n \<rparr>"

definition kref :: "node \<Rightarrow> string \<Rightarrow> string KeyReference" where
  "kref n name = \<lparr> KValue = name, KKeyNode = Some n \<rparr>"

text \<open>\<^verbatim>\<open>allOf\<close> with two entries, nothing else.\<close>

definition allOf2_low :: "nat lowSchema" where
  "allOf2_low = empty_low\<lparr> low_AllOf := present 10 [vref 12 1, vref 13 2] \<rparr>"

text \<open>\<^verbatim>\<open>allOf\<close> with two entries and \<^verbatim>\<open>oneOf: []\<close>, present with no entry.\<close>

definition allOf2_oneOf0_low :: "nat lowSchema" where
  "allOf2_oneOf0_low = empty_low\<lparr> low_AllOf := present 10 [vref 12 1, vref 13 2],
                                  low_OneOf := present 20 [] \<rparr>"


text \<open>\<^verbatim>\<open>uniqueItems\<close> present with value 1.\<close>

definition uniq_low :: "nat lowSchema" where
  "uniq_low = empty_low\<lparr> low_UniqueItems := present 40 1 \<rparr>"

text \<open>
  A schema that refers to itself: the heap \<open>cyclic_heap\<close> holds at address 0 a schema
  whose property \<^verbatim>\<open>self\<close> is the pointer 0.
\<close>

definition cyclic_heap :: "nat \<Rightarrow> nat lowSchema" where
  "cyclic_heap p = (if p = 0
     then empty_low\<lparr> low_Properties := present 50 [(kref 52 ''self'', vref 53 0)] \<rparr>
     else empty_low)"


text \<open>
  \<^verbatim>\<open>maximum: 10\<close> with the boolean form \<^verbatim>\<open>exclusiveMaximum: true\<close>, and the numeric form
  \<^verbatim>\<open>exclusiveMinimum: 5\<close>.
\<close>

definition excl_low :: "nat lowSchema" where
  "excl_low = empty_low\<lparr> low_Maximum := present 70 10,
      low_ExclusiveMaximum := present 72 \<lparr> valA = True, valB = 0, IsA = True, IsB = False \<rparr>,
      low_ExclusiveMinimum := present 74 \<lparr> valA = False, valB = 5, IsA = False, IsB = True \<rparr> \<rparr>"

text \<open>\<^verbatim>\<open>type: string\<close>, the single-string form.\<close>

definition type_string_low :: "nat lowSchema" where
  "type_string_low = empty_low\<lparr> low_Type :=
      present 80 \<lparr> valA = ''string'', valB = [], IsA = True, IsB = False \<rparr> \<rparr>"

text \<open>\<^verbatim>\<open>type: [string, null]\<close>, the list form.\<close>

definition type_list_low :: "nat lowSchema" where
  "type_list_low = empty_low\<lparr> low_Type :=
      present 90 \<lparr> valA = [],
                    valB = [\<lparr> VValue = ''string'', VValueNode = Some 92 \<rparr>,
                            \<lparr> VValue = ''null'', VValueNode = Some 93 \<rparr>],
                    IsA = False, IsB = True \<rparr> \<rparr>"

text \<open>\<^verbatim>\<open>items\<close> with two entries, nothing else.\<close>

definition items2_low :: "nat lowSchema" where
  "items2_low = empty_low\<lparr> low_Items := present 100 [vref 102 1, vref 103 2] \<rparr>"

section \<open>Invariants of the runs\<close>

text \<open>
  The number of \<^verbatim>\<open>buildOutSchema\<close> goroutines that have not yet completed their send on
  \<^verbatim>\<open>doneChan\<close>, and the number of them that \<^verbatim>\<open>NewSchema\<close> starts.
\<close>

definition nrun :: "(poly \<Rightarrow> bpc) \<Rightarrow> nat" where
  "nrun f = length (filter (\<lambda>a. f a = BRun) polys)"

definition ndispatched :: "'sp lowSchema \<Rightarrow> nat" where
  "ndispatched lo = length (filter (\<lambda>a. \<not> IsEmpty (poly_ref lo a)) polys)"

text \<open>
  The main goroutine is past the await loop (or has skipped it).
\<close>

fun past_await :: "mpc \<Rightarrow> bool" where
  "past_await MCheck = False"
| "past_await MAwait = False"
| "past_await _ = True"

text \<open>
  Each value received from \<^verbatim>\<open>doneChan\<close> comes from one \<^verbatim>\<open>buildOutSchema\<close>, which sends
  once; and the main goroutine leaves the await loop only through the \<^verbatim>\<open>break\<close>.
\<close>

definition inv_count :: "'sp lowSchema \<Rightarrow> 'sp state \<Rightarrow> bool" where
  "inv_count lo st \<longleftrightarrow>
     completeChildren st + nrun (bpcs st) = ndispatched lo \<and>
     (past_await (mpc st) \<longrightarrow>
        totalProps lo + totalChildren lo = 0 \<or>
        (completedProps st = totalProps lo \<and> completeChildren st = totalChildren lo))"






text \<open>
  Every value of \<^verbatim>\<open>props\<close> is the proxy of a source entry of that name.
\<close>

definition from_entry :: "'sp lowSchema \<Rightarrow> string \<Rightarrow> 'sp SchemaProxy \<Rightarrow> bool" where
  "from_entry lo n p \<longleftrightarrow>
     (\<exists>i < totalProps lo. KValue (fst (Value (low_Properties lo) ! i)) = n \<and>
         p = propProxy (fst (Value (low_Properties lo) ! i)) (snd (Value (low_Properties lo) ! i)))"

definition inv_val :: "'sp lowSchema \<Rightarrow> 'sp state \<Rightarrow> bool" where
  "inv_val lo st \<longleftrightarrow> (\<forall>n p. props st n = Some p \<longrightarrow> from_entry lo n p)"


text \<open>
  The schema with its six containers set to nil: what is left are the fields that the
  concurrent part never assigns.
\<close>

definition reset_containers :: "'sp Schema \<Rightarrow> 'sp Schema" where
  "reset_containers s = s\<lparr>AllOf := None, OneOf := None, AnyOf := None, NotOf := None,
                           Items := None, Properties := None\<rparr>"

text \<open>
  With no property and no composition entry, nothing is ever appended or assigned.
\<close>

definition inv_zero :: "'sp state \<Rightarrow> bool" where
  "inv_zero st \<longleftrightarrow>
     ppcs st = [] \<and> mpc st \<noteq> MAwait \<and> (\<forall>a. polyvar st a = None) \<and>
     Properties (sch st) = None \<and> AllOf (sch st) = None \<and> OneOf (sch st) = None \<and>
     AnyOf (sch st) = None \<and> NotOf (sch st) = None \<and> Items (sch st) = None"

text \<open>
  Reading a Go map that may be nil: a nil map has no key, and \<^verbatim>\<open>len\<close> 0.
\<close>

definition map_entries :: "('k \<rightharpoonup> 'v) option \<Rightarrow> ('k \<rightharpoonup> 'v)" where
  "map_entries m = (case m of None \<Rightarrow> Map.empty | Some f \<Rightarrow> f)"

definition map_len :: "('k \<rightharpoonup> 'v) option \<Rightarrow> nat" where
  "map_len m = card (dom (map_entries m))"

text \<open>
  The number of steps a goroutine has left at most: a \<^verbatim>\<open>buildProps\<close> goroutine, the
  main goroutine (receives not counted), a \<^verbatim>\<open>buildOutSchema\<close> goroutine with the sends
  of its children. Their sum decreases with every step.
\<close>

fun prank :: "ppc \<Rightarrow> nat" where
  "prank PStart = 5"
| "prank PLocked = 4"
| "prank PWritten = 3"
| "prank PAssigned = 2"
| "prank PSent = 1"
| "prank PDone = 0"

fun mrank :: "mpc \<Rightarrow> nat" where
  "mrank MCheck = 7"
| "mrank MAwait = 6"
| "mrank MOneOf = 5"
| "mrank MAnyOf = 4"
| "mrank MAllOf = 3"
| "mrank MItems = 2"
| "mrank MNot = 1"
| "mrank MReturned = 0"

definition bpot :: "(poly \<Rightarrow> bpc) \<Rightarrow> (poly \<Rightarrow> bool list) \<Rightarrow> nat" where
  "bpot f g = sum_list (map (\<lambda>a. if f a = BRun then Suc (length (filter (\<lambda>b. \<not> b) (g a))) else 0) polys)"

definition potential :: "'sp state \<Rightarrow> nat" where
  "potential st = sum_list (map prank (ppcs st)) + bpot (bpcs st) (bsent st) + mrank (mpc st)"

text \<open>
  Each local slice holds \<^verbatim>\<open>j\<close> proxies, at most one per entry of its array, each of them
  the proxy of an entry of that array.
\<close>

definition inv_poly :: "'sp lowSchema \<Rightarrow> 'sp state \<Rightarrow> bool" where
  "inv_poly lo st \<longleftrightarrow>
     (\<forall>a. len (polyvar st a) = bj st a \<and> bj st a \<le> totalSchemas lo a \<and>
          set (elems (polyvar st a)) \<subseteq> childProxy ` set (Value (poly_ref lo a)))"

text \<open>
  The \<^verbatim>\<open>buildProps\<close> goroutines between \<^verbatim>\<open>plock.Lock()\<close> and the deferred
  \<^verbatim>\<open>plock.Unlock()\<close>: there is one exactly when the lock is held.
\<close>

fun holds_lock :: "ppc \<Rightarrow> bool" where
  "holds_lock PStart = False"
| "holds_lock PDone = False"
| "holds_lock _ = True"

definition inv_lock :: "'sp state \<Rightarrow> bool" where
  "inv_lock st \<longleftrightarrow> length (filter holds_lock (ppcs st)) = (if plock st then 1 else 0)"

section \<open>Lemmas on runs\<close>

lemmas example_defs = absent_def present_def zero_dyn_def empty_low_def vref_def kref_def

lemmas run_defs = NewSchema_def NewSchema_init_def NewSchema_fields_def new_Schema_def
  totalProps_def totalChildren_def totalSchemas_def IsEmpty_def allDone_def copy_values_def
  append_slice_def elems_def Let_def

lemma exec_invariant:
  assumes "exec lo as st0 = Some st" and "P st0"
    and "\<And>a s s'. P s \<Longrightarrow> step lo a s = Some s' \<Longrightarrow> P s'"
  shows "P st"
  using assms(1,2)
proof (induction as arbitrary: st0)
  case Nil
  then show ?case by simp
next
  case (Cons a as)
  then obtain s1 where s1: "step lo a st0 = Some s1" and r: "exec lo as s1 = Some st"
    by (auto split: option.splits)
  from assms(3)[OF Cons.prems(2) s1] have "P s1" .
  with Cons.IH r show ?case by blast
qed

lemma exec_append:
  "exec lo (as @ bs) st = (case exec lo as st of None \<Rightarrow> None | Some st' \<Rightarrow> exec lo bs st')"
  by (induction as arbitrary: st) (auto split: option.splits)

lemma inv_count_init: "inv_count lo (NewSchema_init lo)"
  by (simp add: inv_count_def NewSchema_init_def nrun_def ndispatched_def)

lemma nrun_done:
  "f a = BRun \<Longrightarrow> Suc (nrun (f(a := BDone))) = nrun f"
  by (cases a) (auto simp: nrun_def polys_def)

lemma inv_count_step:
  assumes "inv_count lo s" and "step lo a s = Some s'"
  shows "inv_count lo s'"
proof (cases a)
  case MainStep
  with assms show ?thesis
    by (auto simp: inv_count_def split: mpc.splits if_splits)
next
  case (RecvPoly x)
  with assms nrun_done[of "bpcs s" x] show ?thesis
    by (auto simp: inv_count_def allDone_def split: if_splits)
next
  case (RecvProps i)
  with assms show ?thesis
    by (auto simp: inv_count_def allDone_def split: if_splits)
next
  case (PWrite i)
  with assms show ?thesis
    by (auto simp: inv_count_def Let_def split: if_splits prod.splits)
qed (use assms in \<open>auto simp: inv_count_def split: if_splits\<close>)

lemma returned_counts:
  assumes "exec lo as (NewSchema_init lo) = Some st" and "past_await (mpc st)"
  shows "totalProps lo + totalChildren lo = 0 \<or>
         (completedProps st = totalProps lo \<and> completeChildren st = totalChildren lo \<and>
          totalChildren lo \<le> ndispatched lo)"
proof -
  have "inv_count lo st"
    using assms(1) inv_count_init inv_count_step by (rule exec_invariant)
  with assms(2) show ?thesis by (auto simp: inv_count_def)
qed

lemma never_returns:
  assumes "ndispatched lo < totalChildren lo"
  shows "NewSchema lo as = None"
proof (cases "exec lo as (NewSchema_init lo)")
  case None
  then show ?thesis by (simp add: NewSchema_def)
next
  case (Some st)
  show ?thesis
  proof (cases "mpc st = MReturned")
    case True
    with returned_counts[OF Some] assms show ?thesis by auto
  next
    case False
    with Some show ?thesis by (simp add: NewSchema_def)
  qed
qed

lemma length_filter_update:
  "i < length xs \<Longrightarrow>
   length (filter P (xs[i := y])) + (if P (xs ! i) then 1 else 0)
     = length (filter P xs) + (if P y then 1 else 0)"
proof (induction xs arbitrary: i)
  case Nil
  then show ?case by simp
next
  case (Cons x xs)
  then show ?case by (cases i) auto
qed






lemma inv_val_init: "inv_val lo (NewSchema_init lo)"
  by (simp add: inv_val_def NewSchema_init_def)

lemma inv_val_step:
  assumes "inv_val lo s" and "step lo a s = Some s'"
  shows "inv_val lo s'"
proof (cases a)
  case MainStep
  with assms show ?thesis
    by (auto simp: inv_val_def split: mpc.splits if_splits)
next
  case (RecvPoly x)
  with assms show ?thesis
    by (auto simp: inv_val_def allDone_def split: if_splits)
next
  case (RecvProps i)
  with assms show ?thesis
    by (auto simp: inv_val_def allDone_def split: if_splits)
next
  case (PWrite i)
  obtain k v where kv: "Value (low_Properties lo) ! i = (k, v)"
    by (cases "Value (low_Properties lo) ! i")
  from assms(2) PWrite kv have i: "i < totalProps lo"
    and p': "props s' = (props s)(KValue k \<mapsto> propProxy k v)"
    by (auto simp: Let_def split: if_splits)
  from i kv have "from_entry lo (KValue k) (propProxy k v)"
    unfolding from_entry_def by (intro exI[of _ i]) simp
  with assms(1) p' show ?thesis
    by (auto simp: inv_val_def)
qed (use assms in \<open>auto simp: inv_val_def split: if_splits\<close>)



lemma fields_reset: "reset_containers (NewSchema_fields lo) = NewSchema_fields lo"
  by (simp add: reset_containers_def NewSchema_fields_def new_Schema_def Let_def)

lemma reset_step:
  assumes "step lo a s = Some s'"
  shows "reset_containers (sch s') = reset_containers (sch s)"
proof (cases a)
  case MainStep
  with assms show ?thesis
    by (auto simp: reset_containers_def split: mpc.splits if_splits)
next
  case (RecvPoly x)
  with assms show ?thesis
    by (auto simp: allDone_def split: if_splits)
next
  case (RecvProps i)
  with assms show ?thesis
    by (auto simp: allDone_def split: if_splits)
next
  case (PWrite i)
  with assms show ?thesis
    by (auto simp: reset_containers_def Let_def split: if_splits prod.splits)
next
  case (PAssign i)
  with assms show ?thesis
    by (auto simp: reset_containers_def split: if_splits)
qed (use assms in \<open>auto split: if_splits\<close>)

lemma reset_run:
  assumes "exec lo as (NewSchema_init lo) = Some st"
  shows "reset_containers (sch st) = NewSchema_fields lo"
proof -
  have "reset_containers (sch st) = reset_containers (sch (NewSchema_init lo))"
    using assms
    by (rule exec_invariant[where P = "\<lambda>s. reset_containers (sch s) = reset_containers (sch (NewSchema_init lo))"])
       (simp_all add: reset_step)
  then show ?thesis by (simp add: NewSchema_init_def fields_reset)
qed

lemma errChan_step: "step lo a s = Some s' \<Longrightarrow> errChan s' = errChan s"
  by (cases a) (auto simp: allDone_def Let_def split: mpc.splits if_splits prod.splits)

lemma errChan_run:
  assumes "exec lo as (NewSchema_init lo) = Some st"
  shows "errChan st = []"
  using assms
  by (rule exec_invariant[where P = "\<lambda>s. errChan s = []"])
     (simp_all add: errChan_step NewSchema_init_def)

lemma zero_totalSchemas: "totalChildren lo = 0 \<Longrightarrow> totalSchemas lo a = 0"
  by (cases a) (simp_all add: totalChildren_def totalSchemas_def)

lemma fields_containers:
  "Properties (NewSchema_fields lo) = None" "AllOf (NewSchema_fields lo) = None"
  "OneOf (NewSchema_fields lo) = None" "AnyOf (NewSchema_fields lo) = None"
  "NotOf (NewSchema_fields lo) = None" "Items (NewSchema_fields lo) = None"
  using arg_cong[OF fields_reset[of lo], of Properties] arg_cong[OF fields_reset[of lo], of AllOf]
   arg_cong[OF fields_reset[of lo], of OneOf] arg_cong[OF fields_reset[of lo], of AnyOf]
   arg_cong[OF fields_reset[of lo], of NotOf] arg_cong[OF fields_reset[of lo], of Items]
  by (simp_all add: reset_containers_def)

lemma inv_zero_init: "totalProps lo = 0 \<Longrightarrow> inv_zero (NewSchema_init lo)"
  by (simp add: inv_zero_def NewSchema_init_def fields_containers)

lemma inv_zero_step:
  assumes z: "totalProps lo = 0" "totalChildren lo = 0"
    and "inv_zero s" and "step lo a s = Some s'"
  shows "inv_zero s'"
proof (cases a)
  case MainStep
  with assms show ?thesis
    by (auto simp: inv_zero_def split: mpc.splits if_splits)
next
  case (BRecv x i)
  with assms zero_totalSchemas[OF z(2), of x] show ?thesis
    by (auto simp: inv_zero_def split: if_splits)
qed (use assms in \<open>auto simp: inv_zero_def split: if_splits\<close>)


lemma from_entry_set:
  "from_entry lo n p \<longleftrightarrow> (\<exists>(k, v) \<in> set (Value (low_Properties lo)). KValue k = n \<and> p = propProxy k v)"
proof
  assume "from_entry lo n p"
  then obtain i where i: "i < length (Value (low_Properties lo))"
      "KValue (fst (Value (low_Properties lo) ! i)) = n"
      "p = propProxy (fst (Value (low_Properties lo) ! i)) (snd (Value (low_Properties lo) ! i))"
    unfolding from_entry_def totalProps_def by blast
  from i(1) have "Value (low_Properties lo) ! i \<in> set (Value (low_Properties lo))"
    by (rule nth_mem)
  with i(2,3) show "\<exists>(k, v) \<in> set (Value (low_Properties lo)). KValue k = n \<and> p = propProxy k v"
    by (intro bexI[of _ "Value (low_Properties lo) ! i"]) (simp_all add: case_prod_beta)
next
  assume "\<exists>(k, v) \<in> set (Value (low_Properties lo)). KValue k = n \<and> p = propProxy k v"
  then obtain k v where kv: "(k, v) \<in> set (Value (low_Properties lo))" "KValue k = n" "p = propProxy k v"
    by blast
  from kv(1) obtain i where "i < length (Value (low_Properties lo))" "Value (low_Properties lo) ! i = (k, v)"
    by (auto simp: in_set_conv_nth)
  with kv(2,3) show "from_entry lo n p"
    unfolding from_entry_def totalProps_def by (intro exI[of _ i]) simp
qed


lemma NewSchema_Some:
  "NewSchema lo as = Some r \<longleftrightarrow>
   (\<exists>st. exec lo as (NewSchema_init lo) = Some st \<and> mpc st = MReturned \<and> r = sch st)"
  by (auto simp: NewSchema_def split: option.splits)

lemma sum_list_update_nat:
  "i < length xs \<Longrightarrow>
   sum_list (map f (xs[i := y])) + f (xs ! i) = sum_list (map f xs) + (f y :: nat)"
proof (induction xs arbitrary: i)
  case Nil
  then show ?case by simp
next
  case (Cons x xs)
  then show ?case by (cases i) auto
qed

lemma bpot_done: "f a = BRun \<Longrightarrow> bpot (f(a := BDone)) g < bpot f g"
  by (cases a) (auto simp: bpot_def polys_def)

lemma bpot_sent:
  "f a = BRun \<Longrightarrow> length (filter (\<lambda>b. \<not> b) ys) < length (filter (\<lambda>b. \<not> b) (g a))
   \<Longrightarrow> bpot f (g(a := ys)) < bpot f g"
  by (cases a) (auto simp: bpot_def polys_def)

lemma potential_step:
  assumes "step lo a s = Some s'"
  shows "potential s' < potential s"
proof (cases a)
  case MainStep
  with assms show ?thesis
    by (auto simp: potential_def split: mpc.splits if_splits)
next
  case (RecvPoly x)
  with assms bpot_done[of "bpcs s" x "bsent s"] show ?thesis
    by (auto simp: potential_def allDone_def split: if_splits)
next
  case (RecvProps i)
  with assms sum_list_update_nat[of i "ppcs s" prank PSent] show ?thesis
    by (auto simp: potential_def allDone_def split: if_splits)
next
  case (PLock i)
  with assms sum_list_update_nat[of i "ppcs s" prank PLocked] show ?thesis
    by (auto simp: potential_def split: if_splits)
next
  case (PWrite i)
  with assms sum_list_update_nat[of i "ppcs s" prank PWritten] show ?thesis
    by (auto simp: potential_def Let_def split: if_splits prod.splits)
next
  case (PAssign i)
  with assms sum_list_update_nat[of i "ppcs s" prank PAssigned] show ?thesis
    by (auto simp: potential_def split: if_splits)
next
  case (PUnlock i)
  with assms sum_list_update_nat[of i "ppcs s" prank PDone] show ?thesis
    by (auto simp: potential_def split: if_splits)
next
  case (BRecv x i)
  with assms have g: "bpcs s x = BRun" "i < length (bsent s x)" "\<not> bsent s x ! i"
    and s': "bpcs s' = bpcs s" "ppcs s' = ppcs s" "mpc s' = mpc s"
            "bsent s' = (bsent s)(x := (bsent s x)[i := True])"
    by (auto split: if_splits)
  from length_filter_update[OF g(2), of "\<lambda>b. \<not> b" True] g(3)
  have "length (filter (\<lambda>b. \<not> b) ((bsent s x)[i := True])) < length (filter (\<lambda>b. \<not> b) (bsent s x))"
    by simp
  with g(1) have "bpot (bpcs s) ((bsent s)(x := (bsent s x)[i := True])) < bpot (bpcs s) (bsent s)"
    by (rule bpot_sent)
  with s' show ?thesis by (simp add: potential_def)
qed

lemma potential_run:
  "exec lo as st0 = Some st \<Longrightarrow> length as + potential st \<le> potential st0"
proof (induction as arbitrary: st0)
  case Nil
  then show ?case by simp
next
  case (Cons a as)
  then obtain s1 where s1: "step lo a st0 = Some s1" and r: "exec lo as s1 = Some st"
    by (auto split: option.splits)
  from potential_step[OF s1] Cons.IH[OF r] show ?case by simp
qed

lemma potential_init:
  "potential (NewSchema_init lo) \<le> 5 * totalProps lo + totalChildren lo + 12"
  by (simp add: potential_def NewSchema_init_def bpot_def polys_def totalChildren_def
      totalSchemas_def sum_list_replicate)

lemma inv_poly_init: "inv_poly lo (NewSchema_init lo)"
  by (simp add: inv_poly_def NewSchema_init_def len_def elems_def)

lemma step_frame_poly:
  assumes "step lo a s = Some s'" and "\<And>x i. a \<noteq> BRecv x i"
  shows "polyvar s' = polyvar s \<and> bj s' = bj s"
  using assms
  by (cases a) (auto simp: allDone_def Let_def split: mpc.splits if_splits prod.splits)

lemma inv_poly_step:
  assumes "inv_poly lo s" and "step lo a s = Some s'"
  shows "inv_poly lo s'"
proof (cases "\<exists>x i. a = BRecv x i")
  case False
  then have "polyvar s' = polyvar s \<and> bj s' = bj s"
    using step_frame_poly[OF assms(2)] by blast
  with assms(1) show ?thesis by (simp add: inv_poly_def)
next
  case True
  then obtain x i where a: "a = BRecv x i" by blast
  with assms have g: "bj s x < totalSchemas lo x" "i < totalSchemas lo x"
    and s': "bj s' = (bj s)(x := bj s x + 1)"
       "polyvar s' = (polyvar s)(x := append_slice (polyvar s x) (childProxy (Value (poly_ref lo x) ! i)))"
    by (auto split: if_splits)
  from g(2) have m: "Value (poly_ref lo x) ! i \<in> set (Value (poly_ref lo x))"
    by (simp add: totalSchemas_def)
  show ?thesis
    unfolding inv_poly_def
  proof (intro allI)
    fix b
    from assms(1) have I: "len (polyvar s b) = bj s b" "bj s b \<le> totalSchemas lo b"
      "set (elems (polyvar s b)) \<subseteq> childProxy ` set (Value (poly_ref lo b))"
      by (simp_all add: inv_poly_def)
    show "len (polyvar s' b) = bj s' b \<and> bj s' b \<le> totalSchemas lo b \<and>
          set (elems (polyvar s' b)) \<subseteq> childProxy ` set (Value (poly_ref lo b))"
    proof (cases "b = x")
      case True
      with I g(1) m s' show ?thesis
        by (auto simp: len_def elems_def append_slice_def)
    next
      case False
      with I s' show ?thesis by simp
    qed
  qed
qed

lemma result_fields: "NewSchema lo as = Some r \<Longrightarrow> reset_containers r = NewSchema_fields lo"
  by (auto simp: NewSchema_Some reset_run)

lemma fields_scalars:
  "Title (NewSchema_fields lo) = Value (low_Title lo)"
  "MultipleOf (NewSchema_fields lo) = Value (low_MultipleOf lo)"
  "Maximum (NewSchema_fields lo) = Value (low_Maximum lo)"
  "Minimum (NewSchema_fields lo) = Value (low_Minimum lo)"
  "MaxLength (NewSchema_fields lo) = Value (low_MaxLength lo)"
  "MinLength (NewSchema_fields lo) = Value (low_MinLength lo)"
  "Pattern (NewSchema_fields lo) = Value (low_Pattern lo)"
  "Format (NewSchema_fields lo) = Value (low_Format lo)"
  "MaxItems (NewSchema_fields lo) = Value (low_MaxItems lo)"
  "MinItems (NewSchema_fields lo) = Value (low_MinItems lo)"
  "UniqueItems (NewSchema_fields lo) = 0"
  "MaxProperties (NewSchema_fields lo) = Value (low_MaxProperties lo)"
  "MinProperties (NewSchema_fields lo) = Value (low_MinProperties lo)"
  "Description (NewSchema_fields lo) = Value (low_Description lo)"
  "Nullable (NewSchema_fields lo) = Value (low_Nullable lo)"
  "ReadOnly (NewSchema_fields lo) = Value (low_ReadOnly lo)"
  "WriteOnly (NewSchema_fields lo) = Value (low_WriteOnly lo)"
  "Deprecated (NewSchema_fields lo) = Value (low_Deprecated lo)"
  "SchemaTypeRef (NewSchema_fields lo) = []"
  by (simp_all add: NewSchema_fields_def new_Schema_def Let_def)

lemma fields_exclusive:
  "ExclusiveMaximumBool (NewSchema_fields lo) =
     (if \<not> IsEmpty (low_ExclusiveMaximum lo) \<and> IsA (Value (low_ExclusiveMaximum lo))
      then valA (Value (low_ExclusiveMaximum lo)) else False)"
  "ExclusiveMaximum (NewSchema_fields lo) =
     (if \<not> IsEmpty (low_ExclusiveMaximum lo) \<and> IsB (Value (low_ExclusiveMaximum lo))
      then valB (Value (low_ExclusiveMaximum lo)) else 0)"
  "ExclusiveMinimumBool (NewSchema_fields lo) =
     (if \<not> IsEmpty (low_ExclusiveMinimum lo) \<and> IsA (Value (low_ExclusiveMinimum lo))
      then valA (Value (low_ExclusiveMinimum lo)) else False)"
  "ExclusiveMinimum (NewSchema_fields lo) =
     (if \<not> IsEmpty (low_ExclusiveMinimum lo) \<and> IsB (Value (low_ExclusiveMinimum lo))
      then valB (Value (low_ExclusiveMinimum lo)) else 0)"
  by (simp_all add: NewSchema_fields_def new_Schema_def Let_def)

lemma elems_copy_values: "elems (copy_values s vs) = elems s @ map VValue vs"
  unfolding copy_values_def
  by (induction vs arbitrary: s) (simp_all add: append_slice_def elems_def)

lemma copy_values_Nil: "copy_values s [] = s"
  by (simp add: copy_values_def)

lemma fields_Type:
  "Type (NewSchema_fields lo) =
     (if \<not> IsEmpty (low_Type lo) \<and> IsB (Value (low_Type lo))
      then copy_values (if \<not> IsEmpty (low_Type lo) \<and> IsA (Value (low_Type lo))
                        then Some [valA (Value (low_Type lo))] else None)
                       (valB (Value (low_Type lo)))
      else if \<not> IsEmpty (low_Type lo) \<and> IsA (Value (low_Type lo))
           then Some [valA (Value (low_Type lo))] else None)"
  by (simp add: NewSchema_fields_def new_Schema_def Let_def)

lemma fields_lists:
  "Required (NewSchema_fields lo) = copy_values None (Value (low_Required lo))"
  "Enum (NewSchema_fields lo) = copy_values None (Value (low_Enum lo))"
  by (simp_all add: NewSchema_fields_def new_Schema_def Let_def)

lemma result_scalars:
  assumes "NewSchema lo as = Some r"
  shows "Title r = Title (NewSchema_fields lo)"
  "MultipleOf r = MultipleOf (NewSchema_fields lo)"
  "Maximum r = Maximum (NewSchema_fields lo)"
  "Minimum r = Minimum (NewSchema_fields lo)"
  "MaxLength r = MaxLength (NewSchema_fields lo)"
  "MinLength r = MinLength (NewSchema_fields lo)"
  "Pattern r = Pattern (NewSchema_fields lo)"
  "Format r = Format (NewSchema_fields lo)"
  "MaxItems r = MaxItems (NewSchema_fields lo)"
  "MinItems r = MinItems (NewSchema_fields lo)"
  "UniqueItems r = UniqueItems (NewSchema_fields lo)"
  "MaxProperties r = MaxProperties (NewSchema_fields lo)"
  "MinProperties r = MinProperties (NewSchema_fields lo)"
  "ExclusiveMaximumBool r = ExclusiveMaximumBool (NewSchema_fields lo)"
  "ExclusiveMaximum r = ExclusiveMaximum (NewSchema_fields lo)"
  "ExclusiveMinimumBool r = ExclusiveMinimumBool (NewSchema_fields lo)"
  "ExclusiveMinimum r = ExclusiveMinimum (NewSchema_fields lo)"
  "Type r = Type (NewSchema_fields lo)"
  "Required r = Required (NewSchema_fields lo)"
  "Enum r = Enum (NewSchema_fields lo)"
  "Description r = Description (NewSchema_fields lo)"
  "Nullable r = Nullable (NewSchema_fields lo)"
  "ReadOnly r = ReadOnly (NewSchema_fields lo)"
  "WriteOnly r = WriteOnly (NewSchema_fields lo)"
  "Deprecated r = Deprecated (NewSchema_fields lo)"
  "SchemaTypeRef r = SchemaTypeRef (NewSchema_fields lo)"
  unfolding result_fields[OF assms, symmetric]
  by (simp_all add: reset_containers_def)

lemma inv_lock_init: "inv_lock (NewSchema_init lo)"
  by (simp add: inv_lock_def NewSchema_init_def)

lemma inv_lock_step:
  assumes "inv_lock s" and "step lo a s = Some s'"
  shows "inv_lock s'"
proof (cases a)
  case MainStep
  with assms show ?thesis
    by (auto simp: inv_lock_def split: mpc.splits if_splits)
next
  case (RecvPoly x)
  with assms show ?thesis
    by (auto simp: inv_lock_def allDone_def split: if_splits)
next
  case (RecvProps i)
  with assms length_filter_update[of i "ppcs s" holds_lock PSent] show ?thesis
    by (auto simp: inv_lock_def allDone_def split: if_splits)
next
  case (PLock i)
  with assms length_filter_update[of i "ppcs s" holds_lock PLocked] show ?thesis
    by (auto simp: inv_lock_def split: if_splits)
next
  case (PWrite i)
  with assms length_filter_update[of i "ppcs s" holds_lock PWritten] show ?thesis
    by (auto simp: inv_lock_def Let_def split: if_splits prod.splits)
next
  case (PAssign i)
  with assms length_filter_update[of i "ppcs s" holds_lock PAssigned] show ?thesis
    by (auto simp: inv_lock_def split: if_splits)
next
  case (PUnlock i)
  with assms length_filter_update[of i "ppcs s" holds_lock PDone] show ?thesis
    by (auto simp: inv_lock_def split: if_splits)
next
  case (BRecv x i)
  with assms show ?thesis
    by (auto simp: inv_lock_def split: if_splits)
qed

lemma six_steps:
  "totalProps lo + totalChildren lo = 0 \<Longrightarrow>
   exec lo [MainStep, MainStep, MainStep, MainStep, MainStep, MainStep] (NewSchema_init lo)
     = Some ((NewSchema_init lo)\<lparr>sch := NewSchema_fields lo, mpc := MReturned\<rparr>)"
  by (simp add: NewSchema_init_def fields_containers)

text \<open>
  No step sends on the error channel; at most one \<^verbatim>\<open>buildProps\<close> goroutine is between
  \<^verbatim>\<open>Lock\<close> and \<^verbatim>\<open>Unlock\<close>, so that no two writes to the properties map overlap; the
  fields that the concurrent part does not assign are those computed from the low-level
  nodes, present or absent; and on the low-level schema with every field absent the main
  goroutine alone returns the schema with every field at its zero value.
\<close>

lemma no_error_sent:
  assumes "exec lo as (NewSchema_init lo) = Some st"
  shows "errChan st = [] \<and> length (filter holds_lock (ppcs st)) \<le> 1 \<and>
         reset_containers (sch st) = NewSchema_fields lo \<and>
         NewSchema (empty_low :: 'sp lowSchema) [MainStep, MainStep, MainStep, MainStep, MainStep, MainStep]
           = Some new_Schema"
proof (intro conjI)
  show "errChan st = []" using assms by (rule errChan_run)
  have "inv_lock st"
    using assms inv_lock_init inv_lock_step by (rule exec_invariant)
  then show "length (filter holds_lock (ppcs st)) \<le> 1"
    by (simp add: inv_lock_def split: if_splits)
  show "reset_containers (sch st) = NewSchema_fields lo" using assms by (rule reset_run)
  show "NewSchema (empty_low :: 'sp lowSchema) [MainStep, MainStep, MainStep, MainStep, MainStep, MainStep]
           = Some new_Schema"
    by (simp add: run_defs example_defs)
qed

section \<open>The claims\<close>

text \<open>
  C1 (termination of \<^verbatim>\<open>NewSchema\<close> on every input) fails on the code. Each
  \<^verbatim>\<open>buildOutSchema\<close> sends one value on \<^verbatim>\<open>doneChan\<close> for its whole array, while the
  await loop waits for \<^verbatim>\<open>totalChildren\<close> values, one per array entry. On a schema whose
  only composition array is \<^verbatim>\<open>allOf\<close> with two entries, \<^verbatim>\<open>NewSchema\<close> returns under no
  schedule, and the schedule below leads to a state in which the main goroutine is in the
  await loop and no goroutine can move.
\<close>

theorem NewSchema_allOf2_deadlock:
  "(\<forall>as. NewSchema allOf2_low as = None) \<and>
   (\<exists>st. exec allOf2_low [BRecv KAllOf 0, BRecv KAllOf 1, MainStep, RecvPoly KAllOf]
            (NewSchema_init allOf2_low) = Some st
        \<and> mpc st = MAwait \<and> completeChildren st = 1 \<and> totalChildren allOf2_low = 2
        \<and> (\<forall>a. step allOf2_low a st = None))"
proof (intro conjI allI)
  fix as
  have "ndispatched allOf2_low < totalChildren allOf2_low"
    by (simp add: ndispatched_def polys_def totalChildren_def IsEmpty_def allOf2_low_def
        example_defs)
  then show "NewSchema allOf2_low as = None"
    by (rule never_returns)
next
  define st where "st = the (exec allOf2_low [BRecv KAllOf 0, BRecv KAllOf 1, MainStep, RecvPoly KAllOf]
            (NewSchema_init allOf2_low))"
  have run: "exec allOf2_low [BRecv KAllOf 0, BRecv KAllOf 1, MainStep, RecvPoly KAllOf]
            (NewSchema_init allOf2_low) = Some st"
    unfolding st_def by (simp add: run_defs allOf2_low_def example_defs)
  have m: "mpc st = MAwait" "completeChildren st = 1" "ppcs st = []"
    unfolding st_def by (simp_all add: run_defs allOf2_low_def example_defs)
  have nb: "bpcs st x \<noteq> BRun" for x
    unfolding st_def by (cases x) (simp_all add: run_defs allOf2_low_def example_defs)
  have t: "totalChildren allOf2_low = 2"
    by (simp add: totalChildren_def allOf2_low_def example_defs)
  have stuck: "step allOf2_low a st = None" for a
    by (cases a) (simp_all add: m nb)
  from run m t stuck show "\<exists>st. exec allOf2_low [BRecv KAllOf 0, BRecv KAllOf 1, MainStep, RecvPoly KAllOf]
            (NewSchema_init allOf2_low) = Some st
        \<and> mpc st = MAwait \<and> completeChildren st = 1 \<and> totalChildren allOf2_low = 2
        \<and> (\<forall>a. step allOf2_low a st = None)"
    by blast
qed

text \<open>
  C2 (each composition sequence lists its proxies in the order of the source array,
  whatever the completion order) fails on the code: \<^verbatim>\<open>buildOutSchema\<close> appends the
  proxies in the order in which the child goroutines get their send on \<^verbatim>\<open>bChan\<close>
  through. On \<^verbatim>\<open>allOf\<close> with two entries and an \<^verbatim>\<open>oneOf\<close> that is present with no
  entry, \<^verbatim>\<open>NewSchema\<close> returns; when the second child sends first, \<^verbatim>\<open>AllOf\<close> holds the
  two proxies in reverse order, and when the first child sends first, in source order.
\<close>

theorem NewSchema_allOf_completion_order:
  "Value (low_AllOf allOf2_oneOf0_low) = [vref 12 1, vref 13 2] \<and>
   map_option AllOf (NewSchema allOf2_oneOf0_low
     [BRecv KAllOf 1, BRecv KAllOf 0, MainStep, RecvPoly KOneOf, RecvPoly KAllOf,
      MainStep, MainStep, MainStep, MainStep, MainStep])
     = Some (Some [childProxy (vref 13 2), childProxy (vref 12 1)]) \<and>
   map_option AllOf (NewSchema allOf2_oneOf0_low
     [BRecv KAllOf 0, BRecv KAllOf 1, MainStep, RecvPoly KOneOf, RecvPoly KAllOf,
      MainStep, MainStep, MainStep, MainStep, MainStep])
     = Some (Some [childProxy (vref 12 1), childProxy (vref 13 2)]) \<and>
   childProxy (vref 13 2) \<noteq> (childProxy (vref 12 1) :: nat SchemaProxy)"
  by (simp add: run_defs example_defs allOf2_oneOf0_low_def childProxy_def)

text \<open>
  C3, as stated (with no property and no composition entry the six containers of the
  result are present, empty containers), fails on the code: on the empty low-level schema
  the \<^verbatim>\<open>Properties\<close> map and the five slices of the result are nil.
\<close>

theorem NewSchema_empty_containers_counterexample:
  "map_option Properties (NewSchema (empty_low :: nat lowSchema)
       [MainStep, MainStep, MainStep, MainStep, MainStep, MainStep]) = Some None \<and>
   map_option (\<lambda>r. [AllOf r, OneOf r, AnyOf r, NotOf r, Items r])
     (NewSchema (empty_low :: nat lowSchema)
       [MainStep, MainStep, MainStep, MainStep, MainStep, MainStep])
     = Some [None, None, None, None, None]"
  by (simp add: run_defs example_defs)

text \<open>
  C3, amended: on a low-level schema with no property and no composition entry, the main
  goroutine alone runs to its return in six steps; under every schedule it never enters
  the await loop and can always make its next step until it has returned; and in every
  schema returned the \<^verbatim>\<open>Properties\<close> map and the five composition slices are nil, of
  length zero.
\<close>

theorem NewSchema_no_entries_nil_containers:
  assumes "totalProps lo = 0" and "totalChildren lo = 0"
  shows "(\<exists>r. NewSchema lo [MainStep, MainStep, MainStep, MainStep, MainStep, MainStep] = Some r) \<and>
         (\<forall>as st. exec lo as (NewSchema_init lo) = Some st \<longrightarrow>
             mpc st \<noteq> MAwait \<and> (mpc st \<noteq> MReturned \<longrightarrow> step lo MainStep st \<noteq> None)) \<and>
         (\<forall>as r. NewSchema lo as = Some r \<longrightarrow>
             Properties r = None \<and> AllOf r = None \<and> OneOf r = None \<and> AnyOf r = None \<and>
             NotOf r = None \<and> Items r = None \<and>
             map_len (Properties r) = 0 \<and> len (AllOf r) = 0 \<and> len (OneOf r) = 0 \<and>
             len (AnyOf r) = 0 \<and> len (NotOf r) = 0 \<and> len (Items r) = 0)"
proof (intro conjI allI impI)
  show "\<exists>r. NewSchema lo [MainStep, MainStep, MainStep, MainStep, MainStep, MainStep] = Some r"
    by (simp add: NewSchema_def NewSchema_init_def assms)
next
  fix as st
  assume run: "exec lo as (NewSchema_init lo) = Some st"
  have z: "inv_zero st"
    using run inv_zero_init[OF assms(1)] inv_zero_step[OF assms]
    by (rule exec_invariant)
  then show "mpc st \<noteq> MAwait" by (simp add: inv_zero_def)
  assume "mpc st \<noteq> MReturned"
  with z show "step lo MainStep st \<noteq> None"
    by (cases "mpc st") (simp_all add: inv_zero_def)
next
  fix as r
  assume "NewSchema lo as = Some r"
  then obtain st where run: "exec lo as (NewSchema_init lo) = Some st" and r: "r = sch st"
    by (auto simp: NewSchema_Some)
  have z: "inv_zero st"
    using run inv_zero_init[OF assms(1)] inv_zero_step[OF assms]
    by (rule exec_invariant)
  with r show "Properties r = None" "AllOf r = None" "OneOf r = None" "AnyOf r = None"
    "NotOf r = None" "Items r = None"
    by (simp_all add: inv_zero_def)
  then show "map_len (Properties r) = 0" "len (AllOf r) = 0" "len (OneOf r) = 0"
    "len (AnyOf r) = 0" "len (NotOf r) = 0" "len (Items r) = 0"
    by (simp_all add: map_len_def map_entries_def len_def elems_def)
qed

theorem NewSchema_no_entries_nil_containers_witness:
  "totalProps (empty_low :: nat lowSchema) = 0 \<and> totalChildren (empty_low :: nat lowSchema) = 0 \<and>
   NewSchema (empty_low :: nat lowSchema)
     [MainStep, MainStep, MainStep, MainStep, MainStep, MainStep] \<noteq> None \<and>
   Properties (the (NewSchema (empty_low :: nat lowSchema)
     [MainStep, MainStep, MainStep, MainStep, MainStep, MainStep])) = None \<and>
   len (AllOf (the (NewSchema (empty_low :: nat lowSchema)
     [MainStep, MainStep, MainStep, MainStep, MainStep, MainStep]))) = 0"
proof -
  have p: "totalProps (empty_low :: nat lowSchema) = 0"
    by (simp add: totalProps_def example_defs)
  have c: "totalChildren (empty_low :: nat lowSchema) = 0"
    by (simp add: totalChildren_def example_defs)
  from NewSchema_no_entries_nil_containers[OF p c] p c show ?thesis
    by fastforce
qed




text \<open>
  C5: \<^verbatim>\<open>NewSchema\<close> does a bounded amount of work that does not depend on the nested
  schemas. The nested low-level schema is a pointer of the arbitrary type \<open>'sp\<close>, which
  no step of the builder dereferences. Under every schedule the number of steps of all
  goroutines together is at most \<open>5 * totalProps + totalChildren + 12\<close>; each
  composition slice holds at most one proxy per source entry, each of them the wrapper
  \<open>childProxy\<close> of a source entry; each entry of the properties map is the wrapper
  \<open>propProxy\<close> of a source entry. The wrappers hold the nested pointer unchanged.
\<close>

theorem NewSchema_bounded_work:
  assumes "exec lo as (NewSchema_init lo) = Some st"
  shows "length as \<le> 5 * totalProps lo + totalChildren lo + 12 \<and>
         (\<forall>a. len (polyvar st a) \<le> totalSchemas lo a \<and>
              set (elems (polyvar st a)) \<subseteq> childProxy ` set (Value (poly_ref lo a))) \<and>
         (\<forall>n p. props st n = Some p \<longrightarrow>
              (\<exists>(k, v) \<in> set (Value (low_Properties lo)). KValue k = n \<and> p = propProxy k v)) \<and>
         (\<forall>v. Value (schema (childProxy v)) = VValue v) \<and>
         (\<forall>k v. Value (schema (propProxy k v)) = VValue v)"
proof (intro conjI)
  from potential_run[OF assms] potential_init[of lo]
  show "length as \<le> 5 * totalProps lo + totalChildren lo + 12" by simp
  have "inv_poly lo st"
    using assms inv_poly_init inv_poly_step by (rule exec_invariant)
  then show "\<forall>a. len (polyvar st a) \<le> totalSchemas lo a \<and>
              set (elems (polyvar st a)) \<subseteq> childProxy ` set (Value (poly_ref lo a))"
    by (simp add: inv_poly_def)
  have "inv_val lo st"
    using assms inv_val_init inv_val_step by (rule exec_invariant)
  then show "\<forall>n p. props st n = Some p \<longrightarrow>
              (\<exists>(k, v) \<in> set (Value (low_Properties lo)). KValue k = n \<and> p = propProxy k v)"
    by (simp add: inv_val_def from_entry_set)
  show "\<forall>v. Value (schema (childProxy v)) = VValue v"
    by (simp add: childProxy_def)
  show "\<forall>k v. Value (schema (propProxy k v)) = VValue v"
    by (simp add: propProxy_def)
qed

text \<open>
  The witness is the schema at address 0 of \<open>cyclic_heap\<close>, whose property \<^verbatim>\<open>self\<close>
  points back to address 0: the build returns after eleven steps, with a proxy that holds
  the pointer 0.
\<close>

theorem NewSchema_bounded_work_witness:
  "exec (cyclic_heap 0)
     [PLock 0, PWrite 0, PAssign 0, MainStep, RecvProps 0, PUnlock 0,
      MainStep, MainStep, MainStep, MainStep, MainStep] (NewSchema_init (cyclic_heap 0)) \<noteq> None \<and>
   map VValue (map snd (Value (low_Properties (cyclic_heap 0)))) = [0] \<and>
   length [PLock 0, PWrite 0, PAssign 0, MainStep, RecvProps 0, PUnlock 0,
      MainStep, MainStep, MainStep, MainStep, MainStep]
     \<le> 5 * totalProps (cyclic_heap 0) + totalChildren (cyclic_heap 0) + 12 \<and>
   map_option (\<lambda>r. map_option (\<lambda>p. Value (schema p)) (map_entries (Properties r) ''self''))
     (NewSchema (cyclic_heap 0)
       [PLock 0, PWrite 0, PAssign 0, MainStep, RecvProps 0, PUnlock 0,
        MainStep, MainStep, MainStep, MainStep, MainStep]) = Some (Some 0)"
proof -
  let ?sched = "[PLock 0, PWrite 0, PAssign 0, MainStep, RecvProps 0, PUnlock 0,
      MainStep, MainStep, MainStep, MainStep, MainStep]"
  define st where "st = the (exec (cyclic_heap 0) ?sched (NewSchema_init (cyclic_heap 0)))"
  have ne: "exec (cyclic_heap 0) ?sched (NewSchema_init (cyclic_heap 0)) \<noteq> None"
    by (simp add: run_defs example_defs cyclic_heap_def)
  then have run: "exec (cyclic_heap 0) ?sched (NewSchema_init (cyclic_heap 0)) = Some st"
    unfolding st_def by simp
  from NewSchema_bounded_work[OF run]
  have b: "length ?sched \<le> 5 * totalProps (cyclic_heap 0) + totalChildren (cyclic_heap 0) + 12"
    by blast
  have e: "map VValue (map snd (Value (low_Properties (cyclic_heap 0)))) = [0]"
    by (simp add: cyclic_heap_def example_defs)
  have r: "map_option (\<lambda>r. map_option (\<lambda>p. Value (schema p)) (map_entries (Properties r) ''self''))
     (NewSchema (cyclic_heap 0) ?sched) = Some (Some 0)"
    by (simp add: run_defs example_defs cyclic_heap_def propProxy_def map_entries_def)
  from ne e b r show ?thesis by blast
qed

text \<open>
  C6: the two dialect forms of \<^verbatim>\<open>exclusiveMaximum\<close> and \<^verbatim>\<open>exclusiveMinimum\<close> are kept
  apart. When the source field is present in the boolean form, the boolean field of the
  result is the source's boolean and the numeric field is 0; when it is present in the
  numeric form, the numeric field is the source's number and the boolean field is false;
  when it is absent or in neither form, both fields have their zero value.
\<close>

theorem NewSchema_exclusive_forms:
  assumes "NewSchema lo as = Some r"
  shows "(\<not> IsEmpty (low_ExclusiveMaximum lo) \<and> IsA (Value (low_ExclusiveMaximum lo))
            \<and> \<not> IsB (Value (low_ExclusiveMaximum lo)) \<longrightarrow>
            ExclusiveMaximumBool r = valA (Value (low_ExclusiveMaximum lo)) \<and> ExclusiveMaximum r = 0) \<and>
         (\<not> IsEmpty (low_ExclusiveMaximum lo) \<and> IsB (Value (low_ExclusiveMaximum lo))
            \<and> \<not> IsA (Value (low_ExclusiveMaximum lo)) \<longrightarrow>
            ExclusiveMaximum r = valB (Value (low_ExclusiveMaximum lo)) \<and> ExclusiveMaximumBool r = False) \<and>
         (IsEmpty (low_ExclusiveMaximum lo) \<or>
            (\<not> IsA (Value (low_ExclusiveMaximum lo)) \<and> \<not> IsB (Value (low_ExclusiveMaximum lo))) \<longrightarrow>
            ExclusiveMaximumBool r = False \<and> ExclusiveMaximum r = 0) \<and>
         (\<not> IsEmpty (low_ExclusiveMinimum lo) \<and> IsA (Value (low_ExclusiveMinimum lo))
            \<and> \<not> IsB (Value (low_ExclusiveMinimum lo)) \<longrightarrow>
            ExclusiveMinimumBool r = valA (Value (low_ExclusiveMinimum lo)) \<and> ExclusiveMinimum r = 0) \<and>
         (\<not> IsEmpty (low_ExclusiveMinimum lo) \<and> IsB (Value (low_ExclusiveMinimum lo))
            \<and> \<not> IsA (Value (low_ExclusiveMinimum lo)) \<longrightarrow>
            ExclusiveMinimum r = valB (Value (low_ExclusiveMinimum lo)) \<and> ExclusiveMinimumBool r = False) \<and>
         (IsEmpty (low_ExclusiveMinimum lo) \<or>
            (\<not> IsA (Value (low_ExclusiveMinimum lo)) \<and> \<not> IsB (Value (low_ExclusiveMinimum lo))) \<longrightarrow>
            ExclusiveMinimumBool r = False \<and> ExclusiveMinimum r = 0)"
  by (simp add: result_scalars[OF assms] fields_exclusive)

theorem NewSchema_exclusive_forms_witness:
  "NewSchema excl_low [MainStep, MainStep, MainStep, MainStep, MainStep, MainStep] \<noteq> None \<and>
   \<not> IsEmpty (low_ExclusiveMaximum excl_low) \<and> IsA (Value (low_ExclusiveMaximum excl_low)) \<and>
   \<not> IsB (Value (low_ExclusiveMaximum excl_low)) \<and>
   \<not> IsEmpty (low_ExclusiveMinimum excl_low) \<and> IsB (Value (low_ExclusiveMinimum excl_low)) \<and>
   \<not> IsA (Value (low_ExclusiveMinimum excl_low)) \<and>
   Maximum (the (NewSchema excl_low [MainStep, MainStep, MainStep, MainStep, MainStep, MainStep])) = 10 \<and>
   ExclusiveMaximumBool (the (NewSchema excl_low [MainStep, MainStep, MainStep, MainStep, MainStep, MainStep])) = True \<and>
   ExclusiveMaximum (the (NewSchema excl_low [MainStep, MainStep, MainStep, MainStep, MainStep, MainStep])) = 0 \<and>
   ExclusiveMinimum (the (NewSchema excl_low [MainStep, MainStep, MainStep, MainStep, MainStep, MainStep])) = 5 \<and>
   ExclusiveMinimumBool (the (NewSchema excl_low [MainStep, MainStep, MainStep, MainStep, MainStep, MainStep])) = False \<and>
   NewSchema (empty_low :: nat lowSchema) [MainStep, MainStep, MainStep, MainStep, MainStep, MainStep] \<noteq> None \<and>
   IsEmpty (low_ExclusiveMaximum (empty_low :: nat lowSchema)) \<and>
   ExclusiveMaximumBool (the (NewSchema (empty_low :: nat lowSchema)
      [MainStep, MainStep, MainStep, MainStep, MainStep, MainStep])) = False \<and>
   ExclusiveMaximum (the (NewSchema (empty_low :: nat lowSchema)
      [MainStep, MainStep, MainStep, MainStep, MainStep, MainStep])) = 0"
proof -
  let ?sched = "[MainStep, MainStep, MainStep, MainStep, MainStep, MainStep]"
  define r where "r = the (NewSchema excl_low ?sched)"
  define e where "e = the (NewSchema (empty_low :: nat lowSchema) ?sched)"
  have ne: "NewSchema excl_low ?sched \<noteq> None"
    by (simp add: run_defs example_defs excl_low_def)
  then have run: "NewSchema excl_low ?sched = Some r" unfolding r_def by simp
  have ne': "NewSchema (empty_low :: nat lowSchema) ?sched \<noteq> None"
    by (simp add: run_defs example_defs)
  then have run': "NewSchema (empty_low :: nat lowSchema) ?sched = Some e" unfolding e_def by simp
  have h: "\<not> IsEmpty (low_ExclusiveMaximum excl_low)" "IsA (Value (low_ExclusiveMaximum excl_low))"
    "\<not> IsB (Value (low_ExclusiveMaximum excl_low))" "valA (Value (low_ExclusiveMaximum excl_low)) = True"
    "\<not> IsEmpty (low_ExclusiveMinimum excl_low)" "IsB (Value (low_ExclusiveMinimum excl_low))"
    "\<not> IsA (Value (low_ExclusiveMinimum excl_low))" "valB (Value (low_ExclusiveMinimum excl_low)) = 5"
    by (simp_all add: excl_low_def example_defs IsEmpty_def)
  have h': "IsEmpty (low_ExclusiveMaximum (empty_low :: nat lowSchema))"
    by (simp add: example_defs IsEmpty_def)
  have m: "Maximum r = 10"
    unfolding r_def by (simp add: run_defs example_defs excl_low_def)
  from NewSchema_exclusive_forms[OF run] h
  have "ExclusiveMaximumBool r = True" "ExclusiveMaximum r = 0" "ExclusiveMinimum r = 5"
    "ExclusiveMinimumBool r = False"
    by simp_all
  moreover from NewSchema_exclusive_forms[OF run'] h'
  have "ExclusiveMaximumBool e = False" "ExclusiveMaximum e = 0"
    by simp_all
  ultimately show ?thesis
    using ne ne' h h' m unfolding r_def e_def by simp
qed

text \<open>
  C7: when the source \<^verbatim>\<open>type\<close> is present in the single-string form with value \<open>t\<close>,
  the \<^verbatim>\<open>Type\<close> slice of the result is \<open>[t]\<close>; when it is present in the list form,
  \<^verbatim>\<open>Type\<close> holds the strings of the source list, in the same order.
\<close>

theorem NewSchema_type_forms:
  assumes "NewSchema lo as = Some r"
  shows "(\<not> IsEmpty (low_Type lo) \<and> IsA (Value (low_Type lo)) \<and> \<not> IsB (Value (low_Type lo)) \<longrightarrow>
            Type r = Some [valA (Value (low_Type lo))]) \<and>
         (\<not> IsEmpty (low_Type lo) \<and> IsB (Value (low_Type lo)) \<and> \<not> IsA (Value (low_Type lo)) \<longrightarrow>
            elems (Type r) = map VValue (valB (Value (low_Type lo))))"
  by (simp add: result_scalars[OF assms] fields_Type elems_copy_values) (simp add: elems_def)

theorem NewSchema_type_forms_witness:
  "NewSchema type_string_low [MainStep, MainStep, MainStep, MainStep, MainStep, MainStep] \<noteq> None \<and>
   \<not> IsEmpty (low_Type type_string_low) \<and> IsA (Value (low_Type type_string_low)) \<and>
   \<not> IsB (Value (low_Type type_string_low)) \<and>
   Type (the (NewSchema type_string_low [MainStep, MainStep, MainStep, MainStep, MainStep, MainStep]))
     = Some [''string''] \<and>
   NewSchema type_list_low [MainStep, MainStep, MainStep, MainStep, MainStep, MainStep] \<noteq> None \<and>
   \<not> IsEmpty (low_Type type_list_low) \<and> IsB (Value (low_Type type_list_low)) \<and>
   \<not> IsA (Value (low_Type type_list_low)) \<and>
   elems (Type (the (NewSchema type_list_low [MainStep, MainStep, MainStep, MainStep, MainStep, MainStep])))
     = [''string'', ''null'']"
proof -
  let ?sched = "[MainStep, MainStep, MainStep, MainStep, MainStep, MainStep]"
  define r where "r = the (NewSchema type_string_low ?sched)"
  define q where "q = the (NewSchema type_list_low ?sched)"
  have ne: "NewSchema type_string_low ?sched \<noteq> None"
    by (simp add: run_defs example_defs type_string_low_def)
  then have run: "NewSchema type_string_low ?sched = Some r" unfolding r_def by simp
  have ne': "NewSchema type_list_low ?sched \<noteq> None"
    by (simp add: run_defs example_defs type_list_low_def)
  then have run': "NewSchema type_list_low ?sched = Some q" unfolding q_def by simp
  have h: "\<not> IsEmpty (low_Type type_string_low)" "IsA (Value (low_Type type_string_low))"
    "\<not> IsB (Value (low_Type type_string_low))" "valA (Value (low_Type type_string_low)) = ''string''"
    by (simp_all add: type_string_low_def example_defs IsEmpty_def)
  have h': "\<not> IsEmpty (low_Type type_list_low)" "IsB (Value (low_Type type_list_low))"
    "\<not> IsA (Value (low_Type type_list_low))"
    "map VValue (valB (Value (low_Type type_list_low))) = [''string'', ''null'']"
    by (simp_all add: type_list_low_def example_defs IsEmpty_def)
  from NewSchema_type_forms[OF run] h have "Type r = Some [''string'']" by simp
  moreover from NewSchema_type_forms[OF run'] h' have "elems (Type q) = [''string'', ''null'']" by simp
  ultimately show ?thesis
    using ne ne' h h' unfolding r_def q_def by simp
qed

text \<open>
  C8, as stated (the \<^verbatim>\<open>Type\<close> of the result is never empty), fails on the code: on the
  empty low-level schema, whose \<^verbatim>\<open>type\<close> is absent, \<^verbatim>\<open>Type\<close> is the nil slice.
\<close>

theorem NewSchema_type_nonempty_counterexample:
  "IsEmpty (low_Type (empty_low :: nat lowSchema)) \<and>
   map_option Type (NewSchema (empty_low :: nat lowSchema)
       [MainStep, MainStep, MainStep, MainStep, MainStep, MainStep]) = Some None \<and>
   map_option (\<lambda>r. len (Type r)) (NewSchema (empty_low :: nat lowSchema)
       [MainStep, MainStep, MainStep, MainStep, MainStep, MainStep]) = Some 0"
  by (simp add: run_defs example_defs len_def)

text \<open>
  C8, amended: the \<^verbatim>\<open>Type\<close> of the result is a non-empty sequence exactly when the
  source \<^verbatim>\<open>type\<close> is present and is either in the single-string form or in the list form
  with at least one value; when the source \<^verbatim>\<open>type\<close> is absent or in neither form,
  \<^verbatim>\<open>Type\<close> is nil.
\<close>

theorem NewSchema_type_nonempty_iff:
  assumes "NewSchema lo as = Some r"
  shows "(elems (Type r) \<noteq> [] \<longleftrightarrow>
            \<not> IsEmpty (low_Type lo) \<and>
            (IsA (Value (low_Type lo)) \<or>
             (IsB (Value (low_Type lo)) \<and> valB (Value (low_Type lo)) \<noteq> []))) \<and>
         (IsEmpty (low_Type lo) \<or> (\<not> IsA (Value (low_Type lo)) \<and> \<not> IsB (Value (low_Type lo))) \<longrightarrow>
            Type r = None)"
  by (simp add: result_scalars[OF assms] fields_Type elems_copy_values) (auto simp: elems_def)

theorem NewSchema_type_nonempty_iff_witness:
  "NewSchema type_string_low [MainStep, MainStep, MainStep, MainStep, MainStep, MainStep] \<noteq> None \<and>
   \<not> IsEmpty (low_Type type_string_low) \<and> IsA (Value (low_Type type_string_low)) \<and>
   elems (Type (the (NewSchema type_string_low
      [MainStep, MainStep, MainStep, MainStep, MainStep, MainStep]))) \<noteq> [] \<and>
   NewSchema (empty_low :: nat lowSchema) [MainStep, MainStep, MainStep, MainStep, MainStep, MainStep] \<noteq> None \<and>
   IsEmpty (low_Type (empty_low :: nat lowSchema)) \<and>
   Type (the (NewSchema (empty_low :: nat lowSchema)
      [MainStep, MainStep, MainStep, MainStep, MainStep, MainStep])) = None"
proof -
  let ?sched = "[MainStep, MainStep, MainStep, MainStep, MainStep, MainStep]"
  define r where "r = the (NewSchema type_string_low ?sched)"
  define e where "e = the (NewSchema (empty_low :: nat lowSchema) ?sched)"
  have ne: "NewSchema type_string_low ?sched \<noteq> None"
    by (simp add: run_defs example_defs type_string_low_def)
  then have run: "NewSchema type_string_low ?sched = Some r" unfolding r_def by simp
  have ne': "NewSchema (empty_low :: nat lowSchema) ?sched \<noteq> None"
    by (simp add: run_defs example_defs)
  then have run': "NewSchema (empty_low :: nat lowSchema) ?sched = Some e" unfolding e_def by simp
  have h: "\<not> IsEmpty (low_Type type_string_low)" "IsA (Value (low_Type type_string_low))"
    by (simp_all add: type_string_low_def example_defs IsEmpty_def)
  have h': "IsEmpty (low_Type (empty_low :: nat lowSchema))"
    by (simp add: example_defs IsEmpty_def)
  from NewSchema_type_nonempty_iff[OF run] h have "elems (Type r) \<noteq> []" by simp
  moreover from NewSchema_type_nonempty_iff[OF run'] h' have "Type e = None" by simp
  ultimately show ?thesis
    using ne ne' h h' unfolding r_def e_def by simp
qed

text \<open>
  C9 (every scalar constraint field of the result is the value of the corresponding
  low-level node) holds for every scalar field that \<^verbatim>\<open>NewSchema\<close> assigns, whether the
  node is present or not, and fails for \<^verbatim>\<open>UniqueItems\<close>: the struct declares the field,
  \<^verbatim>\<open>NewSchema\<close> has no assignment to it, and it is 0 in every result.
\<close>

theorem NewSchema_scalar_fields:
  assumes "NewSchema lo as = Some r"
  shows "Title r = Value (low_Title lo) \<and> MultipleOf r = Value (low_MultipleOf lo) \<and>
         Maximum r = Value (low_Maximum lo) \<and> Minimum r = Value (low_Minimum lo) \<and>
         MaxLength r = Value (low_MaxLength lo) \<and> MinLength r = Value (low_MinLength lo) \<and>
         Pattern r = Value (low_Pattern lo) \<and> Format r = Value (low_Format lo) \<and>
         MaxItems r = Value (low_MaxItems lo) \<and> MinItems r = Value (low_MinItems lo) \<and>
         MaxProperties r = Value (low_MaxProperties lo) \<and>
         MinProperties r = Value (low_MinProperties lo) \<and>
         UniqueItems r = 0"
  by (simp add: result_scalars[OF assms] fields_scalars)

text \<open>
  On \<^verbatim>\<open>uniqueItems\<close> present with value 1, the result has \<^verbatim>\<open>UniqueItems\<close> 0.
\<close>

theorem NewSchema_scalar_fields_witness:
  "NewSchema uniq_low [MainStep, MainStep, MainStep, MainStep, MainStep, MainStep] \<noteq> None \<and>
   \<not> IsEmpty (low_UniqueItems uniq_low) \<and> Value (low_UniqueItems uniq_low) = 1 \<and>
   UniqueItems (the (NewSchema uniq_low
      [MainStep, MainStep, MainStep, MainStep, MainStep, MainStep])) = 0"
proof -
  let ?sched = "[MainStep, MainStep, MainStep, MainStep, MainStep, MainStep]"
  define r where "r = the (NewSchema uniq_low ?sched)"
  have ne: "NewSchema uniq_low ?sched \<noteq> None"
    by (simp add: run_defs example_defs uniq_low_def)
  then have run: "NewSchema uniq_low ?sched = Some r" unfolding r_def by simp
  have h: "\<not> IsEmpty (low_UniqueItems uniq_low)" "Value (low_UniqueItems uniq_low) = 1"
    by (simp_all add: uniq_low_def example_defs IsEmpty_def)
  from NewSchema_scalar_fields[OF run] have "UniqueItems r = 0" by simp
  with ne h show ?thesis unfolding r_def by simp
qed

text \<open>
  C10 (\<^verbatim>\<open>NewSchema\<close> has no failure path: nothing is sent on the error channel, no
  error is returned, and a consumer never observes a build failure, the worst case being
  a schema of defaults) fails on the code in its last part, by the defect of C1. On a
  schema whose only composition array is \<^verbatim>\<open>items\<close> with two entries, \<^verbatim>\<open>NewSchema\<close>
  returns under no schedule, so that the consumer gets no schema at all, not even one of
  defaults; under every schedule nothing is sent on the error channel, so that the failure
  is not reported either; and the schedule below ends in a state in which the main
  goroutine waits in the await loop and no goroutine can move.
\<close>

theorem NewSchema_items2_build_failure:
  "(\<forall>as. NewSchema items2_low as = None) \<and>
   (\<forall>as. (case exec items2_low as (NewSchema_init items2_low) of
            None \<Rightarrow> [] | Some st \<Rightarrow> errChan st) = []) \<and>
   (\<exists>st. exec items2_low [MainStep, BRecv KItems 1, BRecv KItems 0, RecvPoly KItems]
            (NewSchema_init items2_low) = Some st
        \<and> mpc st = MAwait \<and> errChan st = []
        \<and> completedProps st = totalProps items2_low
        \<and> completeChildren st = 1 \<and> totalChildren items2_low = 2
        \<and> (\<forall>a. step items2_low a st = None))"
proof (intro conjI allI)
  fix as
  have "ndispatched items2_low < totalChildren items2_low"
    by (simp add: ndispatched_def polys_def totalChildren_def IsEmpty_def items2_low_def
        example_defs)
  then show "NewSchema items2_low as = None"
    by (rule never_returns)
next
  fix as
  show "(case exec items2_low as (NewSchema_init items2_low) of
            None \<Rightarrow> [] | Some st \<Rightarrow> errChan st) = []"
  proof (cases "exec items2_low as (NewSchema_init items2_low)")
    case None
    then show ?thesis by simp
  next
    case (Some st)
    from errChan_run[OF Some] Some show ?thesis by simp
  qed
next
  define st where "st = the (exec items2_low [MainStep, BRecv KItems 1, BRecv KItems 0, RecvPoly KItems]
            (NewSchema_init items2_low))"
  have run: "exec items2_low [MainStep, BRecv KItems 1, BRecv KItems 0, RecvPoly KItems]
            (NewSchema_init items2_low) = Some st"
    unfolding st_def by (simp add: run_defs items2_low_def example_defs)
  have m: "mpc st = MAwait" "completeChildren st = 1" "ppcs st = []" "errChan st = []"
    "completedProps st = totalProps items2_low"
    unfolding st_def by (simp_all add: run_defs items2_low_def example_defs)
  have nb: "bpcs st x \<noteq> BRun" for x
    unfolding st_def by (cases x) (simp_all add: run_defs items2_low_def example_defs)
  have t: "totalChildren items2_low = 2"
    by (simp add: totalChildren_def items2_low_def example_defs)
  have stuck: "step items2_low a st = None" for a
    by (cases a) (simp_all add: m nb)
  from run m t stuck show "\<exists>st. exec items2_low [MainStep, BRecv KItems 1, BRecv KItems 0, RecvPoly KItems]
            (NewSchema_init items2_low) = Some st
        \<and> mpc st = MAwait \<and> errChan st = []
        \<and> completedProps st = totalProps items2_low
        \<and> completeChildren st = 1 \<and> totalChildren items2_low = 2
        \<and> (\<forall>a. step items2_low a st = None)"
    by blast
qed

end
